theory Spec2Isabelle
  imports Main
begin

section \<open>Strings\<close>

text \<open>
  A Python \<open>str\<close> is modelled as a \<open>string\<close> whose characters are the code points
  0..255 (one \<open>char\<close> per code point).  On that range \<open>str.lower\<close> adds 32 to the
  letters A..Z and to the Latin-1 capitals U+00C0..U+00DE other than the
  multiplication sign U+00D7, and the pattern \<open>\s\<close> of \<open>re\<close> accepts the code points
  9..13, 28..32, U+0085 and U+00A0.
\<close>

definition is_upper :: "char \<Rightarrow> bool" where
  "is_upper c =
     (let n = (of_char c :: nat)
      in (65 \<le> n \<and> n \<le> 90) \<or> (192 \<le> n \<and> n \<le> 222 \<and> n \<noteq> 215))"

definition lower_char :: "char \<Rightarrow> char" where
  "lower_char c = (if is_upper c then char_of ((of_char c :: nat) + 32) else c)"

definition lower :: "string \<Rightarrow> string" where
  "lower s = map lower_char s"

definition is_space :: "char \<Rightarrow> bool" where
  "is_space c =
     (let n = (of_char c :: nat)
      in (9 \<le> n \<and> n \<le> 13) \<or> (28 \<le> n \<and> n \<le> 32) \<or> n = 133 \<or> n = 160)"

text \<open>
  \<open>re.search(r"\s+", raw_input)\<close>: \<open>None\<close> when the text holds no white space;
  otherwise the text before the first white-space character
  (\<open>raw_input[:space.start()]\<close>) and the text after the maximal run that starts
  there (\<open>raw_input[space.end():]\<close>).
\<close>

definition search_space :: "string \<Rightarrow> (string \<times> string) option" where
  "search_space raw_input =
     (if \<exists>c \<in> set raw_input. is_space c
      then Some (takeWhile (\<lambda>c. \<not> is_space c) raw_input,
                 dropWhile is_space (dropWhile (\<lambda>c. \<not> is_space c) raw_input))
      else None)"

section \<open>Handlers and command objects\<close>

text \<open>
  A command-like object (a function, a class with \<open>__execute__\<close>, or a function
  wrapper).  \<open>ident\<close> stands for the identity of the Python object, so that \<open>is\<close> and
  the default \<open>==\<close> are equality of these values; \<open>dunder_name\<close> is \<open>__name__\<close> and
  \<open>dunder_description\<close> is \<open>__description__\<close> when the object has one.
\<close>

datatype handler_kind = Function | Class | Wrapper

datatype command_like =
  CommandLike (ident: nat) (dunder_name: string) (kind: handler_kind)
    (dunder_description: "string option")

text \<open>The class \<open>Arg\<close> lives in a module that is not part of the sources at hand.\<close>

typedecl Arg

text \<open>
  Objects of class \<open>Command\<close> live in a store and are referred to by address.
  The fields are those set by \<open>Command.__init__\<close>; \<open>priv_aliases\<close> is \<open>_aliases\<close>,
  \<open>subcommands\<close> is the set \<open>__subcommands__\<close> in its iteration order, \<open>priv_parent\<close>
  is \<open>_parent\<close>, \<open>dunder_parent\<close> is the attribute \<open>__parent__\<close> (absent until
  \<open>add_subcommand\<close> assigns it), and \<open>command_like_instance\<close> is
  \<open>_command_like_instance\<close>, the address of the cached instance.
\<close>

type_synonym node = nat

record Command =
  command_like :: command_like
  is_class :: bool
  wrapped_command :: bool
  name :: string
  description :: "string option"
  args :: "Arg list option"
  aliases :: "string list"
  priv_aliases :: "string list"
  lowercase :: bool
  case_sensitive :: bool
  subcommands :: "node list"
  priv_parent :: "node option"
  dunder_parent :: "node option"
  command_like_instance :: "nat option"

definition Command_init ::
  "string \<Rightarrow> command_like \<Rightarrow> string list \<Rightarrow> bool \<Rightarrow> bool \<Rightarrow> Arg list option \<Rightarrow> Command"
where
  "Command_init nm cl als lc cs ar =
     \<lparr> command_like = cl,
       is_class = (kind cl = Class),
       wrapped_command = (kind cl = Wrapper),
       name = nm,
       description = dunder_description cl,
       args = ar,
       aliases = als,
       priv_aliases = nm # als,
       lowercase = lc,
       case_sensitive = cs,
       subcommands = [],
       priv_parent = None,
       dunder_parent = None,
       command_like_instance = None \<rparr>"

subsection \<open>\<open>Command.matches\<close>\<close>

fun matches_loop :: "bool \<Rightarrow> bool \<Rightarrow> string \<Rightarrow> string list \<Rightarrow> bool" where
  "matches_loop lc cs cmd_name [] = False"
| "matches_loop lc cs cmd_name (alias # rest) =
     (let alias' = (if lc then lower alias else alias)
      in if cs \<and> cmd_name = alias' then True
         else if lower cmd_name = alias' then True
         else matches_loop lc cs cmd_name rest)"

definition matches :: "Command \<Rightarrow> string \<Rightarrow> bool" where
  "matches c cmd_name =
     matches_loop (lowercase c) (case_sensitive c) cmd_name (priv_aliases c)"

text \<open>
  The matching rule in the words of the specification: each alias is folded when
  \<open>lowercase\<close> is set; a case-sensitive command requires the word to equal the
  (possibly folded) alias, any other command compares the folded word.
\<close>

definition spec_matches :: "Command \<Rightarrow> string \<Rightarrow> bool" where
  "spec_matches c word =
     (\<exists>alias \<in> set (priv_aliases c).
        let alias' = (if lowercase c then lower alias else alias)
        in if case_sensitive c then word = alias' else lower word = alias')"

section \<open>The registry\<close>

text \<open>
  What \<open>find_command\<close> is asked for: a name (a \<open>str\<close>) or a command-like object.
\<close>

datatype lookup = Name string | Handler command_like

text \<open>
  Exceptions are values.  \<open>ParentNotFound p\<close> is the
  \<open>ValueError("Parent not found ...")\<close> of \<open>_register_command\<close>, \<open>KeyError\<close> is what
  \<open>set.remove\<close> raises for an absent element.
\<close>

datatype binding_error = MissingArgumentError | ArgumentTypeError

datatype error = ParentNotFound lookup | KeyError node | Binding binding_error

text \<open>A value handed back by registration: a command-like object or a command.\<close>

datatype ref = HandlerRef command_like | CommandRef node

text \<open>
  The state: the fields of the \<open>CLI\<close> object (\<open>commands\<close> is the set \<open>_commands\<close> in
  its iteration order, \<open>command_table\<close> is \<open>_command_table\<close>, \<open>result\<close>), the store of
  \<open>Command\<close> objects with the next free address, the attribute \<open>__boundcommand__\<close>
  of the command-like objects, and the store of handler instances with its next
  free address.  An address below \<open>next_node\<close> refers to an object that exists.
  The injected \<open>console_input\<close> and \<open>process\<close>, which only reads a line and passes
  it to \<open>process_input\<close>, are left out.
\<close>

record ('i, 'r) CLI =
  commands :: "node list"
  command_table :: "command_like \<rightharpoonup> node"
  result :: "'r option"
  heap :: "node \<Rightarrow> Command"
  next_node :: node
  boundcommand :: "command_like \<rightharpoonup> node"
  instances :: "nat \<Rightarrow> 'i"
  next_instance :: nat

definition CLI_init :: "('i, 'r) CLI" where
  "CLI_init =
     \<lparr> commands = [], command_table = Map.empty, result = None,
       heap = (\<lambda>_. undefined), next_node = 0, boundcommand = Map.empty,
       instances = (\<lambda>_. undefined), next_instance = 0 \<rparr>"

text \<open>
  \<open>set.add\<close>.  Python fixes no iteration order; here a new element is iterated
  last.
\<close>

definition set_add :: "'a \<Rightarrow> 'a list \<Rightarrow> 'a list" where
  "set_add x xs = (if x \<in> set xs then xs else xs @ [x])"

definition add_subcommand :: "('i, 'r) CLI \<Rightarrow> node \<Rightarrow> node \<Rightarrow> ('i, 'r) CLI" where
  "add_subcommand st self subcommand =
     (let st1 = st\<lparr>heap := (heap st)
                  (self := (heap st self)
                     \<lparr>subcommands := set_add subcommand (subcommands (heap st self))\<rparr>)\<rparr>
      in st1\<lparr>heap := (heap st1)
                (subcommand := (heap st1 subcommand)\<lparr>dunder_parent := Some self\<rparr>)\<rparr>)"

definition get_parent :: "('i, 'r) CLI \<Rightarrow> node \<Rightarrow> node option" where
  "get_parent st self = priv_parent (heap st self)"

text \<open>
  \<open>isinstance(parent, str) and subcommand.matches(parent)\<close> and
  \<open>subcommand.command_like is parent\<close>.
\<close>

definition str_matches :: "Command \<Rightarrow> lookup \<Rightarrow> bool" where
  "str_matches c identifier =
     (case identifier of Name s \<Rightarrow> matches c s | Handler _ \<Rightarrow> False)"

definition is_same :: "Command \<Rightarrow> lookup \<Rightarrow> bool" where
  "is_same c identifier =
     (case identifier of Name _ \<Rightarrow> False | Handler h \<Rightarrow> command_like c = h)"

text \<open>
  \<open>Command.find_subcommand\<close>.  Every path through the body of the loop returns,
  so only the first subcommand in iteration order is looked at.  The outer
  \<open>option\<close> is \<open>None\<close> when the recursion does not come back.
\<close>

partial_function (option) find_subcommand ::
  "('i, 'r) CLI \<Rightarrow> node \<Rightarrow> lookup \<Rightarrow> node option option"
where
  "find_subcommand st self parent =
     (case subcommands (heap st self) of
        [] \<Rightarrow> Some None
      | subcommand # _ \<Rightarrow>
          if str_matches (heap st subcommand) parent then Some (Some subcommand)
          else if is_same (heap st subcommand) parent then Some (Some subcommand)
          else find_subcommand st subcommand parent)"

fun find_command_loop ::
  "('i, 'r) CLI \<Rightarrow> lookup \<Rightarrow> node list \<Rightarrow> node option option"
where
  "find_command_loop st identifier [] = Some None"
| "find_command_loop st identifier (command # rest) =
     (if str_matches (heap st command) identifier then Some (Some command)
      else if is_same (heap st command) identifier then Some (Some command)
      else (case find_subcommand st command identifier of
              None \<Rightarrow> None
            | Some (Some subcommand) \<Rightarrow> Some (Some subcommand)
            | Some None \<Rightarrow> find_command_loop st identifier rest))"

definition find_command :: "('i, 'r) CLI \<Rightarrow> lookup \<Rightarrow> node option option" where
  "find_command st identifier = find_command_loop st identifier (commands st)"

text \<open>
  \<open>CLI.unregister\<close>.  The state is returned also when \<open>set.remove\<close> raises, since
  the removals made before stay.
\<close>

definition unregister ::
  "('i, 'r) CLI \<Rightarrow> command_like \<Rightarrow> (error + unit) \<times> ('i, 'r) CLI"
where
  "unregister st cl =
     (let matched = filter (\<lambda>cmd. command_like (heap st cmd) = cl) (commands st);
          st1 = st\<lparr>commands := fold remove1 matched (commands st)\<rparr>
      in case command_table st1 cl of
           None \<Rightarrow> (Inr (), st1)
         | Some table_entry \<Rightarrow>
             (case get_parent st1 table_entry of
                None \<Rightarrow> (Inr (), st1)
              | Some parent \<Rightarrow>
                  if table_entry \<in> set (subcommands (heap st1 parent))
                  then (Inr (),
                        st1\<lparr>heap := (heap st1)
                          (parent := (heap st1 parent)
                             \<lparr>subcommands :=
                                remove1 table_entry (subcommands (heap st1 parent))\<rparr>)\<rparr>)
                  else (Inl (KeyError table_entry), st1)))"

text \<open>
  \<open>CLI._register_command\<close>, the function behind the decorators \<open>command\<close> (no
  parent) and \<open>subcommand\<close>.  The outer \<open>option\<close> is that of \<open>find_command\<close>.
\<close>

definition register_command ::
  "('i, 'r) CLI \<Rightarrow> command_like \<Rightarrow> lookup option \<Rightarrow> string list option \<Rightarrow>
   string option \<Rightarrow> bool \<Rightarrow> bool \<Rightarrow> Arg list option \<Rightarrow>
   ((error + ref) \<times> ('i, 'r) CLI) option"
where
  "register_command st cl parent als nm lc cs ar =
     (let cmd_name = (case nm of
                        None \<Rightarrow> dunder_name cl
                      | Some n \<Rightarrow> if n \<noteq> [] then n else dunder_name cl);
          als' = (case als of None \<Rightarrow> [] | Some xs \<Rightarrow> xs);
          cmd = next_node st;
          st1 = st\<lparr>heap := (heap st)(cmd := Command_init cmd_name cl als' lc cs ar),
                   next_node := Suc cmd\<rparr>;
          st2 = st1\<lparr>command_table := (command_table st1)(cl \<mapsto> cmd)\<rparr>;
          st3 = st2\<lparr>boundcommand := (boundcommand st2)(cl \<mapsto> cmd)\<rparr>
      in case parent of
           Some p \<Rightarrow>
             (case find_command st3 p of
                None \<Rightarrow> None
              | Some (Some command_parent) \<Rightarrow>
                  Some (Inr (HandlerRef cl), add_subcommand st3 command_parent cmd)
              | Some None \<Rightarrow> Some (Inl (ParentNotFound p), st3))
         | None \<Rightarrow>
             Some (Inr (HandlerRef cl), st3\<lparr>commands := set_add cmd (commands st3)\<rparr>))"

section \<open>Execution\<close>

text \<open>
  The handlers, their constructors and the module of \<open>ArgMatcher\<close> are not part
  of the sources at hand; they are parameters.  \<open>bind_text\<close> binds the raw
  argument text to the values of a command's parameters or fails;
  \<open>injects_self\<close> tells whether the parameters of a command include one that
  receives the handler's own instance (a parameter named \<open>self\<close>); \<open>construct\<close>
  is the zero-argument call \<open>command_like()\<close> giving the state of a new instance;
  \<open>call_function\<close> is the call \<open>command_like(*args)\<close> and \<open>call_execute\<close> the call
  \<open>command_like.__execute__(*args)\<close> when no instance is among the arguments;
  \<open>call_function_self\<close> and \<open>call_execute_self\<close> are the same calls with an
  instance among the arguments, giving the result and the state the instance
  is left in.
\<close>

record ('v, 'i, 'r) world =
  bind_text :: "Command \<Rightarrow> string \<Rightarrow> binding_error + 'v list"
  injects_self :: "Command \<Rightarrow> bool"
  construct :: "command_like \<Rightarrow> 'i"
  call_function :: "command_like \<Rightarrow> 'v list \<Rightarrow> 'r"
  call_execute :: "command_like \<Rightarrow> 'v list \<Rightarrow> 'r"
  call_function_self :: "command_like \<Rightarrow> 'i \<Rightarrow> 'v list \<Rightarrow> 'r \<times> 'i"
  call_execute_self :: "command_like \<Rightarrow> 'i \<Rightarrow> 'v list \<Rightarrow> 'r \<times> 'i"

text \<open>\<open>Command.get_instance\<close>: the address of the instance, and the state.\<close>

definition get_instance ::
  "('v, 'i, 'r) world \<Rightarrow> ('i, 'r) CLI \<Rightarrow> node \<Rightarrow> nat \<times> ('i, 'r) CLI"
where
  "get_instance w st self =
     (case command_like_instance (heap st self) of
        None \<Rightarrow>
          (let a = next_instance st;
               st1 = st\<lparr>instances := (instances st)
                           (a := construct w (command_like (heap st self))),
                        next_instance := Suc a\<rparr>
           in (a, st1\<lparr>heap := (heap st1)
                       (self := (heap st1 self)\<lparr>command_like_instance := Some a\<rparr>)\<rparr>))
      | Some a \<Rightarrow> (a, st))"

text \<open>
  Modelled from the spec: \<open>ArgMatcher.match_arguments\<close>, whose module is not among
  the sources.  The text is bound by the binder, whose errors abort the
  invocation before the handler runs.  A parameter marked \<open>injects_self\<close> takes
  no part in the binding of the text: its value is the node's singleton
  instance, which \<open>get_instance\<close> creates lazily and caches on the node.  When
  no parameter is so marked (\<open>__execute__\<close> may be static) no instance is asked
  for.
\<close>

definition match_arguments ::
  "('v, 'i, 'r) world \<Rightarrow> ('i, 'r) CLI \<Rightarrow> node \<Rightarrow> string \<Rightarrow>
   (binding_error + nat option \<times> 'v list) \<times> ('i, 'r) CLI"
where
  "match_arguments w st self raw_input =
     (case bind_text w (heap st self) raw_input of
        Inl e \<Rightarrow> (Inl e, st)
      | Inr vs \<Rightarrow>
          if injects_self w (heap st self)
          then (let (a, st1) = get_instance w st self in (Inr (Some a, vs), st1))
          else (Inr (None, vs), st))"

text \<open>
  The call of a handler with the matched arguments: the instance, when one is
  among the arguments, is left in the state the call gives.
\<close>

definition call_with ::
  "('c \<Rightarrow> 'v list \<Rightarrow> 'r) \<Rightarrow> ('c \<Rightarrow> 'i \<Rightarrow> 'v list \<Rightarrow> 'r \<times> 'i) \<Rightarrow> 'c \<Rightarrow>
   nat option \<times> 'v list \<Rightarrow> ('i, 'r) CLI \<Rightarrow> (error + 'r) \<times> ('i, 'r) CLI"
where
  "call_with plain with_self cl arguments st =
     (case arguments of
        (None, vs) \<Rightarrow> (Inr (plain cl vs), st)
      | (Some a, vs) \<Rightarrow>
          (let (r, i) = with_self cl (instances st a) vs
           in (Inr r, st\<lparr>instances := (instances st)(a := i)\<rparr>)))"

text \<open>
  The part of \<open>Command.execute\<close> after the loop over the subcommands: the
  arguments are matched against the whole of \<open>raw_input\<close>, and the handler is
  called, through \<open>__execute__\<close> when it is a class.
\<close>

definition execute_here ::
  "('v, 'i, 'r) world \<Rightarrow> ('i, 'r) CLI \<Rightarrow> node \<Rightarrow> string \<Rightarrow>
   (error + 'r) \<times> ('i, 'r) CLI"
where
  "execute_here w st self raw_input =
     (case match_arguments w st self raw_input of
        (Inl e, st1) \<Rightarrow> (Inl (Binding e), st1)
      | (Inr arguments, st1) \<Rightarrow>
          if is_class (heap st1 self)
          then call_with (call_execute w) (call_execute_self w)
                 (command_like (heap st1 self)) arguments st1
          else call_with (call_function w) (call_function_self w)
                 (command_like (heap st1 self)) arguments st1)"

lemma search_space_shorter:
  "search_space raw_input = Some (subcommand_name, sub_raw_input) \<Longrightarrow>
     length sub_raw_input < length raw_input"
proof -
  assume a: "search_space raw_input = Some (subcommand_name, sub_raw_input)"
  let ?ys = "dropWhile (\<lambda>c. \<not> is_space c) raw_input"
  from a have ex: "\<exists>c \<in> set raw_input. is_space c"
    and eq: "sub_raw_input = dropWhile is_space ?ys"
    by (auto simp: search_space_def split: if_splits)
  from ex have ne: "?ys \<noteq> []" by (auto simp: dropWhile_eq_Nil_conv)
  then have "is_space (hd ?ys)" using hd_dropWhile [of "\<lambda>c. \<not> is_space c" raw_input] by simp
  with ne have "length (dropWhile is_space ?ys) < length ?ys"
    by (cases ?ys) (auto simp: le_imp_less_Suc length_dropWhile_le)
  also have "length ?ys \<le> length raw_input" by (rule length_dropWhile_le)
  finally show ?thesis using eq by simp
qed

text \<open>
  \<open>Command.execute\<close>.  The loop over \<open>__subcommands__\<close> returns at the first
  subcommand that matches, which is what \<open>find\<close> selects.
\<close>

function execute ::
  "('v, 'i, 'r) world \<Rightarrow> ('i, 'r) CLI \<Rightarrow> node \<Rightarrow> string \<Rightarrow>
   (error + 'r) \<times> ('i, 'r) CLI"
where
  "execute w st self raw_input =
     (case search_space raw_input of
        Some (subcommand_name, sub_raw_input) \<Rightarrow>
          (case find (\<lambda>subcommand. matches (heap st subcommand) subcommand_name)
                  (subcommands (heap st self)) of
             Some subcommand \<Rightarrow> execute w st subcommand sub_raw_input
           | None \<Rightarrow> execute_here w st self raw_input)
      | None \<Rightarrow> execute_here w st self raw_input)"
  by pat_completeness auto
termination
  by (relation "measure (\<lambda>(w, st, self, raw_input). length raw_input)")
     (auto dest: search_space_shorter)

text \<open>
  \<open>CLI.process_input\<close>.  The value is \<open>None\<close> when the function falls off its end
  (Python's \<open>None\<close>); \<open>self.result = cmd.execute(raw_input)\<close> is \<open>set_result\<close>, which
  assigns only when \<open>execute\<close> has returned.
\<close>

definition set_result ::
  "(error + 'r) \<times> ('i, 'r) CLI \<Rightarrow> (error + 'r option) \<times> ('i, 'r) CLI"
where
  "set_result out =
     (case out of
        (Inl e, st1) \<Rightarrow> (Inl e, st1)
      | (Inr r, st1) \<Rightarrow> (Inr (Some r), st1\<lparr>result := Some r\<rparr>))"

fun process_input_loop ::
  "('v, 'i, 'r) world \<Rightarrow> ('i, 'r) CLI \<Rightarrow> string \<Rightarrow> string \<Rightarrow> node list \<Rightarrow>
   (error + 'r option) \<times> ('i, 'r) CLI"
where
  "process_input_loop w st command_name raw_input [] = (Inr None, st)"
| "process_input_loop w st command_name raw_input (cmd # rest) =
     (if matches (heap st cmd) command_name
      then set_result (execute w st cmd raw_input)
      else process_input_loop w st command_name raw_input rest)"

definition process_input ::
  "('v, 'i, 'r) world \<Rightarrow> ('i, 'r) CLI \<Rightarrow> string \<Rightarrow> (error + 'r option) \<times> ('i, 'r) CLI"
where
  "process_input w st raw_input =
     (case search_space raw_input of
        None \<Rightarrow> process_input_loop w st raw_input [] (commands st)
      | Some (command_name, raw_input') \<Rightarrow>
          process_input_loop w st command_name raw_input' (commands st))"

section \<open>Vocabulary of the properties\<close>

text \<open>
  A line made of words, each followed by a run of white space, and a tail; every
  word is paired with the command it is to resolve to.
\<close>

fun line :: "(string \<times> string \<times> node) list \<Rightarrow> string \<Rightarrow> string" where
  "line [] tail = tail"
| "line ((word, sp, _) # rest) tail = word @ sp @ line rest tail"

text \<open>
  \<open>resolves st cmds path tail\<close>: the first word of the path selects, as the first
  match in iteration order, a command among \<open>cmds\<close>, every further word selects
  a subcommand of the command before it, and at the last command the descent
  stops (the tail holds no white space, or no subcommand matches its leading
  word).  The words hold no white space and the separators nothing else.
\<close>

definition stops :: "('i, 'r) CLI \<Rightarrow> node list \<Rightarrow> string \<Rightarrow> bool" where
  "stops st cmds tail =
     (case search_space tail of
        None \<Rightarrow> True
      | Some (word, _) \<Rightarrow> find (\<lambda>s. matches (heap st s) word) cmds = None)"

fun resolves ::
  "('i, 'r) CLI \<Rightarrow> node list \<Rightarrow> (string \<times> string \<times> node) list \<Rightarrow> string \<Rightarrow> bool"
where
  "resolves st cmds [] tail = stops st cmds tail"
| "resolves st cmds ((word, sp, m) # rest) tail =
     ((\<forall>c \<in> set word. \<not> is_space c) \<and> sp \<noteq> [] \<and> (\<forall>c \<in> set sp. is_space c) \<and>
      (case line rest tail of [] \<Rightarrow> True | c # _ \<Rightarrow> \<not> is_space c) \<and>
      find (\<lambda>s. matches (heap st s) word) cmds = Some m \<and>
      resolves st (subcommands (heap st m)) rest tail)"

text \<open>The commands reachable from the roots through \<open>__subcommands__\<close>.\<close>

inductive_set reachable :: "('i, 'r) CLI \<Rightarrow> node set" for st :: "('i, 'r) CLI" where
  root: "n \<in> set (commands st) \<Longrightarrow> n \<in> reachable st"
| child: "p \<in> reachable st \<Longrightarrow> c \<in> set (subcommands (heap st p)) \<Longrightarrow> c \<in> reachable st"

text \<open>
  A state of the store as the registry builds it: every address held by the
  roots, by a set of subcommands or by the index refers to an object that
  exists, and a subcommand is younger than its parent.
\<close>

definition wf_state :: "('i, 'r) CLI \<Rightarrow> bool" where
  "wf_state st \<longleftrightarrow>
     (\<forall>n \<in> set (commands st). n < next_node st) \<and>
     (\<forall>n < next_node st. \<forall>c \<in> set (subcommands (heap st n)). n < c \<and> c < next_node st) \<and>
     (\<forall>d n. command_table st d = Some n \<longrightarrow> n < next_node st)"

text \<open>
  The invariant of the registry in the words of the specification: every
  reachable command appears in the index exactly once, and the index holds no
  command that is not reachable.
\<close>

definition spec_index_invariant :: "('i, 'r) CLI \<Rightarrow> bool" where
  "spec_index_invariant st \<longleftrightarrow>
     (\<forall>n \<in> reachable st. \<exists>!d. command_table st d = Some n) \<and>
     (\<forall>d n. command_table st d = Some n \<longrightarrow> n \<in> reachable st)"

text \<open>
  What the registry keeps: the command-like object of every reachable command
  is a key of the index, and the index maps a key to a command built for that
  key.
\<close>

definition index_invariant :: "('i, 'r) CLI \<Rightarrow> bool" where
  "index_invariant st \<longleftrightarrow>
     (\<forall>n \<in> reachable st. command_like (heap st n) \<in> dom (command_table st)) \<and>
     (\<forall>d n. command_table st d = Some n \<longrightarrow> command_like (heap st n) = d)"

text \<open>
  Devices of the proofs: a command answers a lookup; the state right after
  \<open>_register_command\<close> has created the command and entered it in the index; the
  command it creates; and what a registration (\<open>extends\<close>) and an unregistration
  (\<open>shrinks\<close>) may change.
\<close>

definition meets :: "Command \<Rightarrow> lookup \<Rightarrow> bool" where
  "meets c p \<longleftrightarrow> str_matches c p \<or> is_same c p"

definition registered :: "('i, 'r) CLI \<Rightarrow> command_like \<Rightarrow> Command \<Rightarrow> ('i, 'r) CLI" where
  "registered st cl c =
     st\<lparr>heap := (heap st)(next_node st := c), next_node := Suc (next_node st),
        command_table := (command_table st)(cl \<mapsto> next_node st),
        boundcommand := (boundcommand st)(cl \<mapsto> next_node st)\<rparr>"

definition extends :: "('i, 'r) CLI \<Rightarrow> command_like \<Rightarrow> ('i, 'r) CLI \<Rightarrow> bool" where
  "extends st cl st' \<longleftrightarrow>
     next_node st' = Suc (next_node st) \<and>
     command_table st' = (command_table st)(cl \<mapsto> next_node st) \<and>
     result st' = result st \<and>
     (\<forall>n < next_node st. command_like (heap st' n) = command_like (heap st n)) \<and>
     command_like (heap st' (next_node st)) = cl \<and>
     subcommands (heap st' (next_node st)) = [] \<and>
     set (commands st) \<subseteq> set (commands st') \<and>
     set (commands st') \<subseteq> insert (next_node st) (set (commands st)) \<and>
     (\<forall>n < next_node st. set (subcommands (heap st n)) \<subseteq> set (subcommands (heap st' n))) \<and>
     (\<forall>n < next_node st. set (subcommands (heap st' n)) \<subseteq> insert (next_node st) (set (subcommands (heap st n))))"

definition built ::
  "command_like \<Rightarrow> string list option \<Rightarrow> string option \<Rightarrow> bool \<Rightarrow> bool \<Rightarrow> Arg list option \<Rightarrow> Command"
where
  "built cl als nm lc cs ar =
     Command_init
       (case nm of None \<Rightarrow> dunder_name cl | Some n \<Rightarrow> if n \<noteq> [] then n else dunder_name cl)
       cl (case als of None \<Rightarrow> [] | Some xs \<Rightarrow> xs) lc cs ar"

definition shrinks :: "('i, 'r) CLI \<Rightarrow> ('i, 'r) CLI \<Rightarrow> bool" where
  "shrinks st st' \<longleftrightarrow>
     next_node st' = next_node st \<and>
     command_table st' = command_table st \<and>
     set (commands st') \<subseteq> set (commands st) \<and>
     (\<forall>n. command_like (heap st' n) = command_like (heap st n)) \<and>
     (\<forall>n. set (subcommands (heap st' n)) \<subseteq> set (subcommands (heap st n)))"

section \<open>Example inputs\<close>

text \<open>
  A world whose binder hands the whole text over as one value, whose class
  handlers take their instance and whose other handlers do not; a handler
  returns its name, the number of calls its instance has seen (0 without an
  instance) and its arguments, and counts the call on its instance.  In the
  second world no handler takes an instance: every \<open>__execute__\<close> is static.
\<close>

type_synonym demo_result = "string \<times> nat \<times> string list"

definition echo_world :: "(string, nat, demo_result) world" where
  "echo_world =
     \<lparr> bind_text = (\<lambda>c raw_input. Inr [raw_input]),
       injects_self = (\<lambda>c. is_class c),
       construct = (\<lambda>cl. 0),
       call_function = (\<lambda>cl vs. (dunder_name cl, 0, vs)),
       call_execute = (\<lambda>cl vs. (dunder_name cl, 0, vs)),
       call_function_self = (\<lambda>cl i vs. ((dunder_name cl, i, vs), Suc i)),
       call_execute_self = (\<lambda>cl i vs. ((dunder_name cl, i, vs), Suc i)) \<rparr>"

definition static_world :: "(string, nat, demo_result) world" where
  "static_world = echo_world\<lparr>injects_self := (\<lambda>c. False)\<rparr>"

definition fn :: "nat \<Rightarrow> string \<Rightarrow> command_like" where
  "fn k nm = CommandLike k nm Function None"

definition cls :: "nat \<Rightarrow> string \<Rightarrow> command_like" where
  "cls k nm = CommandLike k nm Class None"

text \<open>Registration with the defaults of the decorators, and the state it leaves.\<close>

definition reg ::
  "(nat, demo_result) CLI \<Rightarrow> command_like \<Rightarrow> lookup option \<Rightarrow> (nat, demo_result) CLI"
where
  "reg st cl parent = snd (the (register_command st cl parent None None True True None))"

text \<open>The chain \<open>a\<close>, \<open>b\<close> under \<open>a\<close>, \<open>c\<close> under \<open>b\<close>.\<close>

definition st_a :: "(nat, demo_result) CLI" where
  "st_a = reg CLI_init (fn 1 ''a'') None"

definition st_ab :: "(nat, demo_result) CLI" where
  "st_ab = reg st_a (fn 2 ''b'') (Some (Handler (fn 1 ''a'')))"

definition st_abc :: "(nat, demo_result) CLI" where
  "st_abc = reg st_ab (fn 3 ''c'') (Some (Handler (fn 2 ''b'')))"

text \<open>The command \<open>a\<close> registered twice.\<close>

definition st_aa :: "(nat, demo_result) CLI" where
  "st_aa = reg st_a (fn 1 ''a'') None"

text \<open>The root \<open>r\<close> with the two subcommands \<open>a\<close> and \<open>b\<close>.\<close>

definition st_r :: "(nat, demo_result) CLI" where
  "st_r = reg CLI_init (fn 1 ''r'') None"

definition st_ra :: "(nat, demo_result) CLI" where
  "st_ra = reg st_r (fn 2 ''a'') (Some (Handler (fn 1 ''r'')))"

definition st_rab :: "(nat, demo_result) CLI" where
  "st_rab = reg st_ra (fn 3 ''b'') (Some (Handler (fn 1 ''r'')))"

text \<open>The same commands, the subcommands of \<open>r\<close> iterated in the other order.\<close>

definition st_rba :: "(nat, demo_result) CLI" where
  "st_rba = st_rab\<lparr>heap := (heap st_rab)(0 := (heap st_rab 0)\<lparr>subcommands := [2, 1]\<rparr>)\<rparr>"

text \<open>After \<open>a\<close>, the registration of \<open>c\<close> under the unknown parent \<open>b\<close>.\<close>

definition st_orphan :: "(nat, demo_result) CLI" where
  "st_orphan = reg st_a (fn 3 ''c'') (Some (Handler (fn 2 ''b'')))"

text \<open>The class \<open>Math\<close> with the subcommand \<open>add\<close>, as in the docstring of \<open>subcommand\<close>.\<close>

definition st_math :: "(nat, demo_result) CLI" where
  "st_math = reg CLI_init (cls 1 ''Math'') None"

definition st_math_add :: "(nat, demo_result) CLI" where
  "st_math_add = reg st_math (fn 2 ''add'') (Some (Handler (cls 1 ''Math'')))"

text \<open>The state after \<open>Math\<close> has been executed once on the text \<open>5\<close>.\<close>

definition st_math_once :: "(nat, demo_result) CLI" where
  "st_math_once = snd (execute echo_world st_math 0 ''5'')"

section \<open>Facts about strings\<close>

lemma lower_char_not_upper: "\<not> is_upper (lower_char c)"
  by (auto simp: is_upper_def lower_char_def Let_def)

lemma lower_idem [simp]: "lower (lower s) = lower s"
  by (induction s)
     (auto simp: lower_def lower_char_def lower_char_not_upper [unfolded lower_char_def])

lemma lower_HELLO: "lower ''HELLO'' = ''hello''"
  by code_simp

lemma lower_Hello: "lower ''Hello'' = ''hello''"
  by code_simp

lemma lower_plain: "\<forall>c \<in> set s. \<not> is_upper c \<Longrightarrow> lower s = s"
  by (induction s) (auto simp: lower_def lower_char_def)

lemma search_space_split:
  assumes "\<forall>c \<in> set word. \<not> is_space c" "sp \<noteq> []" "\<forall>c \<in> set sp. is_space c"
    "case rest of [] \<Rightarrow> True | c # _ \<Rightarrow> \<not> is_space c"
  shows "search_space (word @ sp @ rest) = Some (word, rest)"
proof -
  from assms(2,3) obtain s sp' where sp: "sp = s # sp'" and s: "is_space s"
    by (cases sp) auto
  have t: "takeWhile (\<lambda>c. \<not> is_space c) (word @ sp @ rest) = word"
    using assms(1) s by (simp add: sp)
  have d1: "dropWhile (\<lambda>c. \<not> is_space c) (word @ sp @ rest) = sp @ rest"
    using assms(1) s by (simp add: sp)
  have d2: "dropWhile is_space (sp @ rest) = rest"
    using assms(3,4) by (cases rest) simp_all
  have ex: "\<exists>c \<in> set (word @ sp @ rest). is_space c"
    using s by (auto simp: sp)
  show ?thesis
    unfolding search_space_def using ex t d1 d2 by simp
qed

section \<open>The matching rule\<close>

lemma matches_loop_iff:
  "matches_loop lc cs w as \<longleftrightarrow>
     (\<exists>a \<in> set as. (cs \<and> w = (if lc then lower a else a)) \<or>
                    lower w = (if lc then lower a else a))"
  by (induction as) (auto simp: Let_def)

text \<open>
  C1 fails on the code: \<open>matches\<close> compares the folded word with the alias
  whether or not \<open>case_sensitive\<close> is set.  The command named \<open>hello\<close>, built with
  \<open>lowercase\<close> unset and \<open>case_sensitive\<close> set, accepts the word \<open>HELLO\<close>, which
  the rule of the specification (\<open>spec_matches\<close>: a case-sensitive command
  requires the word to equal the alias) refuses.
\<close>

theorem matches_case_sensitive_accepts_folded:
  "matches (Command_init ''hello'' (CommandLike 0 ''hello'' Function None) [] False True None)
     ''HELLO''
   \<and> \<not> spec_matches
         (Command_init ''hello'' (CommandLike 0 ''hello'' Function None) [] False True None)
         ''HELLO''"
  by (simp add: matches_def spec_matches_def Command_init_def lower_HELLO)

text \<open>
  What \<open>matches\<close> computes for each of the four combinations of the flags.
\<close>

lemma matches_rows:
  "matches (Command_init nm cl als True cs ar) w
     \<longleftrightarrow> lower w \<in> lower ` set (nm # als)"
  "matches (Command_init nm cl als False True ar) w
     \<longleftrightarrow> w \<in> set (nm # als) \<or> lower w \<in> set (nm # als)"
  "matches (Command_init nm cl als False False ar) w
     \<longleftrightarrow> lower w \<in> set (nm # als)"
proof -
  show "matches (Command_init nm cl als True cs ar) w
          \<longleftrightarrow> lower w \<in> lower ` set (nm # als)"
    unfolding matches_def matches_loop_iff
    by (cases cs) (auto simp: Command_init_def)
  show "matches (Command_init nm cl als False True ar) w
          \<longleftrightarrow> w \<in> set (nm # als) \<or> lower w \<in> set (nm # als)"
    unfolding matches_def matches_loop_iff
    by (auto simp: Command_init_def)
  show "matches (Command_init nm cl als False False ar) w
          \<longleftrightarrow> lower w \<in> set (nm # als)"
    unfolding matches_def matches_loop_iff
    by (auto simp: Command_init_def)
qed

text \<open>
  C2 fails on the code: a command built with \<open>lowercase\<close> and \<open>case_sensitive\<close> both
  unset compares the folded word with the alias as written, so a name that holds
  a capital letter is not matched by itself.
\<close>

theorem matches_not_reflexive_mixed_case:
  "\<not> matches (Command_init ''Hello'' (CommandLike 0 ''Hello'' Function None) [] False False None)
       ''Hello''"
  by (simp add: matches_def Command_init_def lower_Hello)

section \<open>The example states\<close>

lemma fn_simps [simp]:
  "dunder_name (fn k nm) = nm" "kind (fn k nm) = Function" "dunder_description (fn k nm) = None"
  "fn k nm = fn k' nm' \<longleftrightarrow> k = k' \<and> nm = nm'"
  by (auto simp: fn_def)

lemma cls_simps [simp]:
  "dunder_name (cls k nm) = nm" "kind (cls k nm) = Class" "dunder_description (cls k nm) = None"
  "cls k nm = cls k' nm' \<longleftrightarrow> k = k' \<and> nm = nm'" "cls k nm \<noteq> fn k' nm'" "fn k' nm' \<noteq> cls k nm"
  by (auto simp: cls_def fn_def)

lemmas reg_simps = reg_def register_command_def set_add_def Let_def find_command_def
       is_same_def str_matches_def add_subcommand_def

lemma st_a_eq: "st_a = \<lparr> commands = [0], command_table = [fn 1 ''a'' \<mapsto> 0], result = None,
       heap = (\<lambda>_. undefined)(0 := Command_init ''a'' (fn 1 ''a'') [] True True None), next_node = 1, boundcommand = [fn 1 ''a'' \<mapsto> 0],
       instances = (\<lambda>_. undefined), next_instance = 0 \<rparr>"
  by (simp add: st_a_def reg_simps CLI_init_def)

lemma st_ab_eq: "st_ab = \<lparr> commands = [0], command_table = [fn 1 ''a'' \<mapsto> 0, fn 2 ''b'' \<mapsto> 1], result = None,
       heap = (\<lambda>_. undefined)(0 := (Command_init ''a'' (fn 1 ''a'') [] True True None)\<lparr>subcommands := [1]\<rparr>,
          1 := (Command_init ''b'' (fn 2 ''b'') [] True True None)\<lparr>dunder_parent := Some 0\<rparr>), next_node = 2, boundcommand = [fn 1 ''a'' \<mapsto> 0, fn 2 ''b'' \<mapsto> 1],
       instances = (\<lambda>_. undefined), next_instance = 0 \<rparr>"
  by (simp add: st_ab_def st_a_eq reg_simps Command_init_def)

lemma st_abc_eq: "st_abc = \<lparr> commands = [0], command_table = [fn 1 ''a'' \<mapsto> 0, fn 2 ''b'' \<mapsto> 1, fn 3 ''c'' \<mapsto> 2], result = None,
       heap = (\<lambda>_. undefined)(0 := (Command_init ''a'' (fn 1 ''a'') [] True True None)\<lparr>subcommands := [1]\<rparr>,
          1 := (Command_init ''b'' (fn 2 ''b'') [] True True None)\<lparr>subcommands := [2], dunder_parent := Some 0\<rparr>,
          2 := (Command_init ''c'' (fn 3 ''c'') [] True True None)\<lparr>dunder_parent := Some 1\<rparr>), next_node = 3, boundcommand = [fn 1 ''a'' \<mapsto> 0, fn 2 ''b'' \<mapsto> 1, fn 3 ''c'' \<mapsto> 2],
       instances = (\<lambda>_. undefined), next_instance = 0 \<rparr>"
  by (simp add: st_abc_def st_ab_eq reg_simps Command_init_def find_subcommand.simps)

lemma matches_abc:
  "matches (heap st_abc 0) ''a''"
  "matches (heap st_abc (Suc 0)) ''b''"
  "matches (heap st_abc 2) ''c''"
  by (simp_all add: st_abc_eq matches_def matches_loop_iff Command_init_def lower_plain is_upper_def)

lemma not_matches_abc: "\<not> matches (heap st_abc 0) ''b''"
  by (simp add: st_abc_eq matches_def matches_loop_iff Command_init_def lower_plain is_upper_def)

lemma st_r_eq: "st_r = \<lparr> commands = [0], command_table = [fn 1 ''r'' \<mapsto> 0], result = None,
       heap = (\<lambda>_. undefined)(0 := Command_init ''r'' (fn 1 ''r'') [] True True None),
       next_node = 1, boundcommand = [fn 1 ''r'' \<mapsto> 0],
       instances = (\<lambda>_. undefined), next_instance = 0 \<rparr>"
  by (simp add: st_r_def reg_simps CLI_init_def)

lemma st_ra_eq: "st_ra = \<lparr> commands = [0],
       command_table = [fn 1 ''r'' \<mapsto> 0, fn 2 ''a'' \<mapsto> 1], result = None,
       heap = (\<lambda>_. undefined)
         (0 := (Command_init ''r'' (fn 1 ''r'') [] True True None)\<lparr>subcommands := [1]\<rparr>,
          1 := (Command_init ''a'' (fn 2 ''a'') [] True True None)\<lparr>dunder_parent := Some 0\<rparr>),
       next_node = 2, boundcommand = [fn 1 ''r'' \<mapsto> 0, fn 2 ''a'' \<mapsto> 1],
       instances = (\<lambda>_. undefined), next_instance = 0 \<rparr>"
  by (simp add: st_ra_def st_r_eq reg_simps Command_init_def)

lemma st_rab_eq: "st_rab = \<lparr> commands = [0],
       command_table = [fn 1 ''r'' \<mapsto> 0, fn 2 ''a'' \<mapsto> 1, fn 3 ''b'' \<mapsto> 2], result = None,
       heap = (\<lambda>_. undefined)
         (0 := (Command_init ''r'' (fn 1 ''r'') [] True True None)\<lparr>subcommands := [1, 2]\<rparr>,
          1 := (Command_init ''a'' (fn 2 ''a'') [] True True None)\<lparr>dunder_parent := Some 0\<rparr>,
          2 := (Command_init ''b'' (fn 3 ''b'') [] True True None)\<lparr>dunder_parent := Some 0\<rparr>),
       next_node = 3, boundcommand = [fn 1 ''r'' \<mapsto> 0, fn 2 ''a'' \<mapsto> 1, fn 3 ''b'' \<mapsto> 2],
       instances = (\<lambda>_. undefined), next_instance = 0 \<rparr>"
  by (simp add: st_rab_def st_ra_eq reg_simps Command_init_def; rule ext; simp)

lemma lower_ab: "lower ''a'' = ''a''" "lower ''b'' = ''b''" "lower ''r'' = ''r''"
  by (simp_all add: lower_plain is_upper_def)

lemma st_math_eq: "st_math = \<lparr> commands = [0], command_table = [cls 1 ''Math'' \<mapsto> 0], result = None,
       heap = (\<lambda>_. undefined)(0 := Command_init ''Math'' (cls 1 ''Math'') [] True True None),
       next_node = 1, boundcommand = [cls 1 ''Math'' \<mapsto> 0],
       instances = (\<lambda>_. undefined), next_instance = 0 \<rparr>"
  by (simp add: st_math_def reg_simps CLI_init_def)

lemma st_math_add_eq: "st_math_add = \<lparr> commands = [0],
       command_table = [cls 1 ''Math'' \<mapsto> 0, fn 2 ''add'' \<mapsto> 1], result = None,
       heap = (\<lambda>_. undefined)
         (0 := (Command_init ''Math'' (cls 1 ''Math'') [] True True None)\<lparr>subcommands := [1]\<rparr>,
          1 := (Command_init ''add'' (fn 2 ''add'') [] True True None)\<lparr>dunder_parent := Some 0\<rparr>),
       next_node = 2, boundcommand = [cls 1 ''Math'' \<mapsto> 0, fn 2 ''add'' \<mapsto> 1],
       instances = (\<lambda>_. undefined), next_instance = 0 \<rparr>"
  by (simp add: st_math_add_def st_math_eq reg_simps Command_init_def)

section \<open>Resolution of subcommands\<close>

declare execute.simps [simp del]

lemma execute_stops:
  "stops st (subcommands (heap st n)) tail \<Longrightarrow> execute w st n tail = execute_here w st n tail"
  by (subst execute.simps) (auto simp: stops_def split: option.splits)

lemma execute_step:
  assumes "search_space raw_input = Some (word, rest)"
    and "find (\<lambda>s. matches (heap st s) word) (subcommands (heap st n)) = Some m"
  shows "execute w st n raw_input = execute w st m rest"
  using assms by (subst execute.simps) simp

lemma execute_resolves:
  "resolves st (subcommands (heap st n)) path tail \<Longrightarrow>
     execute w st n (line path tail)
       = execute_here w st (last (n # map (\<lambda>(_, _, m). m) path)) tail"
proof (induction path arbitrary: n)
  case Nil
  then show ?case by (simp add: execute_stops)
next
  case (Cons p path)
  obtain word sp m where p: "p = (word, sp, m)" by (cases p)
  from Cons.prems have ch: "resolves st (subcommands (heap st m)) path tail"
    and f: "find (\<lambda>s. matches (heap st s) word) (subcommands (heap st n)) = Some m"
    and sp: "search_space (word @ sp @ line path tail) = Some (word, line path tail)"
    by (auto simp: p intro: search_space_split)
  have "execute w st n (line (p # path) tail) = execute w st m (line path tail)"
    using execute_step [OF sp f] by (simp add: p)
  also have "\<dots> = execute_here w st (last (m # map (\<lambda>(_, _, m). m) path)) tail"
    by (rule Cons.IH [OF ch])
  finally show ?case by (simp add: p)
qed

lemma process_input_loop_find:
  "process_input_loop w st nm raw cmds =
     (case find (\<lambda>s. matches (heap st s) nm) cmds of
        None \<Rightarrow> (Inr None, st)
      | Some cmd \<Rightarrow> set_result (execute w st cmd raw))"
  by (induction cmds) auto

text \<open>
  C8: resolution consumes one word per level, to any depth.  When the words of a
  line select a command, then a subcommand of it, and so on (\<open>resolves\<close>), and
  the descent stops at the last command selected because the tail holds no
  white space or because none of its subcommands matches the leading word of the
  tail, then \<open>execute\<close>, and \<open>process_input\<close> when the first word selects a root,
  run the last command on the tail, unsplit.
\<close>

theorem resolution_descends:
  "(resolves st (subcommands (heap st n)) path tail \<longrightarrow>
      execute w st n (line path tail)
        = execute_here w st (last (n # map (\<lambda>(_, _, m). m) path)) tail)
   \<and> (resolves st (commands st) ((word, sp, m) # path) tail \<longrightarrow>
      process_input w st (line ((word, sp, m) # path) tail)
        = set_result (execute_here w st (last (m # map (\<lambda>(_, _, m). m) path)) tail))"
proof (intro conjI impI)
  assume "resolves st (subcommands (heap st n)) path tail"
  then show "execute w st n (line path tail)
        = execute_here w st (last (n # map (\<lambda>(_, _, m). m) path)) tail"
    by (rule execute_resolves)
next
  assume a: "resolves st (commands st) ((word, sp, m) # path) tail"
  then have sp: "search_space (word @ sp @ line path tail) = Some (word, line path tail)"
    by (auto intro: search_space_split)
  from a have f: "find (\<lambda>s. matches (heap st s) word) (commands st) = Some m"
    and r: "resolves st (subcommands (heap st m)) path tail" by auto
  show "process_input w st (line ((word, sp, m) # path) tail)
        = set_result (execute_here w st (last (m # map (\<lambda>(_, _, m). m) path)) tail)"
    using sp f execute_resolves [OF r, of w]
    by (simp add: process_input_def process_input_loop_find)
qed

theorem resolution_descends_witness:
  "resolves st_abc (subcommands (heap st_abc 0)) [(''b'', '' '', 1), (''c'', '' '', 2)] ''rest''
   \<and> execute echo_world st_abc 0 ''b c rest'' = execute_here echo_world st_abc 2 ''rest''
   \<and> resolves st_abc (commands st_abc) [(''a'', '' '', 0), (''b'', '' '', 1), (''c'', '' '', 2)] ''rest''
   \<and> process_input echo_world st_abc ''a b c rest''
       = (Inr (Some (''c'', 0, [''rest''])), st_abc\<lparr>result := Some (''c'', 0, [''rest''])\<rparr>)"
proof -
  have subs: "subcommands (heap st_abc 0) = [1]" "subcommands (heap st_abc (Suc 0)) = [2]"
    "subcommands (heap st_abc 2) = []" "commands st_abc = [0]"
    by (simp_all add: st_abc_eq Command_init_def)
  have low: "lower ''a'' = ''a''" "lower ''b'' = ''b''" "lower ''c'' = ''c''"
    by (simp_all add: lower_plain is_upper_def)
  have r1: "resolves st_abc (subcommands (heap st_abc 0)) [(''b'', '' '', 1), (''c'', '' '', 2)] ''rest''"
    by (simp add: subs matches_abc low stops_def search_space_def is_space_def)
  have r2: "resolves st_abc (commands st_abc) [(''a'', '' '', 0), (''b'', '' '', 1), (''c'', '' '', 2)] ''rest''"
    by (simp add: subs matches_abc low stops_def search_space_def is_space_def)
  have here: "execute_here echo_world st_abc 2 ''rest'' = (Inr (''c'', 0, [''rest'']), st_abc)"
    by (simp add: execute_here_def match_arguments_def call_with_def echo_world_def st_abc_eq
          Command_init_def)
  from resolution_descends [of st_abc 0 "[(''b'', '' '', 1), (''c'', '' '', 2)]" "''rest''" echo_world
      "''a''" "'' ''" 0] r1 r2 here
  show ?thesis by (simp add: set_result_def)
qed

section \<open>Lines that match no command\<close>

text \<open>
  C10: when the leading word of a line matches no root command, \<open>process_input\<close>
  returns \<open>None\<close> without raising, and leaves the state, \<open>result\<close> included, as it
  was.
\<close>

theorem process_input_unmatched:
  "\<forall>cmd \<in> set (commands st).
      \<not> matches (heap st cmd)
          (case search_space raw_input of None \<Rightarrow> raw_input | Some (command_name, _) \<Rightarrow> command_name)
   \<Longrightarrow> process_input w st raw_input = (Inr None, st)"
proof -
  have loop: "\<forall>cmd \<in> set cmds. \<not> matches (heap st cmd) nm \<Longrightarrow>
     process_input_loop w st nm raw cmds = (Inr None, st)" for cmds nm raw
    by (induction cmds) auto
  assume "\<forall>cmd \<in> set (commands st).
      \<not> matches (heap st cmd)
          (case search_space raw_input of None \<Rightarrow> raw_input | Some (command_name, _) \<Rightarrow> command_name)"
  then show ?thesis
    by (auto simp: process_input_def loop split: option.splits)
qed

theorem process_input_unmatched_witness:
  "commands st_abc = [0]
   \<and> search_space ''b c rest'' = Some (''b'', ''c rest'')
   \<and> \<not> matches (heap st_abc 0) ''b''
   \<and> process_input echo_world st_abc ''b c rest'' = (Inr None, st_abc)"
proof -
  have c: "commands st_abc = [0]" by (simp add: st_abc_eq)
  have sp: "search_space ''b c rest'' = Some (''b'', ''c rest'')"
    by (simp add: search_space_def is_space_def)
  from process_input_unmatched [of st_abc "''b c rest''" echo_world] c sp not_matches_abc
  show ?thesis by simp
qed

section \<open>Finding commands\<close>

text \<open>
  C6 fails on the code: \<open>find_subcommand\<close> returns from the first pass through its
  loop, so of the subcommands of a command only the one iterated first is ever
  looked at.  With the root \<open>r\<close> and its subcommands \<open>a\<close> and \<open>b\<close>, the one
  iterated second is found neither by its name nor by its handler, whichever of
  the two orders the set iterates in.
\<close>

theorem find_command_first_child_only:
  "commands st_rab = [0] \<and> subcommands (heap st_rab 0) = [1, 2]
   \<and> matches (heap st_rab 2) ''b''
   \<and> command_like (heap st_rab 2) = fn 3 ''b''
   \<and> find_command st_rab (Name ''b'') = Some None
   \<and> find_command st_rab (Handler (fn 3 ''b'')) = Some None
   \<and> commands st_rba = [0] \<and> subcommands (heap st_rba 0) = [2, 1]
   \<and> matches (heap st_rba 1) ''a''
   \<and> find_command st_rba (Name ''a'') = Some None"
  by (simp add: st_rba_def st_rab_eq Command_init_def matches_def matches_loop_iff lower_ab
        find_command_def find_subcommand.simps str_matches_def is_same_def)

section \<open>Unregistering\<close>

text \<open>
  C3 fails on the code: \<open>add_subcommand\<close> records the parent in the attribute
  \<open>__parent__\<close>, \<open>get_parent\<close> reads \<open>_parent\<close>, which nothing assigns.  So
  \<open>unregister\<close> of a subcommand finds no parent and changes nothing: the
  subcommand stays among the subcommands of its parent and \<open>find_command\<close> still
  returns it.
\<close>

theorem unregister_subcommand_stays:
  "command_table st_math_add (fn 2 ''add'') = Some 1
   \<and> subcommands (heap st_math_add 0) = [1]
   \<and> dunder_parent (heap st_math_add 1) = Some 0
   \<and> get_parent st_math_add 1 = None
   \<and> unregister st_math_add (fn 2 ''add'') = (Inr (), st_math_add)
   \<and> find_command st_math_add (Handler (fn 2 ''add'')) = Some (Some 1)"
  by (simp add: st_math_add_eq Command_init_def unregister_def get_parent_def
        find_command_def find_subcommand.simps str_matches_def is_same_def)

section \<open>Search on the states the registry builds\<close>

lemma wf_stateD:
  assumes "wf_state st"
  shows "n \<in> set (commands st) \<Longrightarrow> n < next_node st"
    and "n < next_node st \<Longrightarrow> c \<in> set (subcommands (heap st n)) \<Longrightarrow> n < c \<and> c < next_node st"
    and "command_table st d = Some n \<Longrightarrow> n < next_node st"
  using assms unfolding wf_state_def by blast+

lemma reachable_below:
  assumes "wf_state st"
  shows "n \<in> reachable st \<Longrightarrow> n < next_node st"
proof (induction rule: reachable.induct)
  case (root n)
  then show ?case by (rule wf_stateD(1) [OF assms])
next
  case (child p c)
  from wf_stateD(2) [OF assms child.IH child.hyps(2)] show ?case by simp
qed

lemma find_subcommand_Nil:
  "subcommands (heap st n) = [] \<Longrightarrow> find_subcommand st n p = Some None"
  by (subst find_subcommand.simps) simp

lemma find_subcommand_hit:
  "subcommands (heap st n) = c # cs \<Longrightarrow> meets (heap st c) p \<Longrightarrow>
     find_subcommand st n p = Some (Some c)"
  by (subst find_subcommand.simps) (auto simp: meets_def)

lemma find_subcommand_miss:
  "subcommands (heap st n) = c # cs \<Longrightarrow> \<not> meets (heap st c) p \<Longrightarrow>
     find_subcommand st n p = find_subcommand st c p"
  by (subst find_subcommand.simps) (simp add: meets_def)

lemma find_subcommand_total:
  assumes wf: "wf_state st"
  shows "n \<in> reachable st \<Longrightarrow>
     \<exists>r. find_subcommand st n p = Some r \<and>
         (\<forall>m. r = Some m \<longrightarrow> m \<in> reachable st \<and> meets (heap st m) p)"
proof (induction "next_node st - n" arbitrary: n rule: less_induct)
  case less
  have nlt: "n < next_node st" using wf less.prems by (rule reachable_below)
  show ?case
  proof (cases "subcommands (heap st n)")
    case Nil
    then show ?thesis by (simp add: find_subcommand_Nil)
  next
    case (Cons c cs)
    then have cin: "c \<in> set (subcommands (heap st n))" by simp
    have cr: "c \<in> reachable st" using less.prems cin by (rule reachable.child)
    from wf nlt cin have "n < c \<and> c < next_node st" by (rule wf_stateD(2))
    then have m: "next_node st - c < next_node st - n" by arith
    show ?thesis
    proof (cases "meets (heap st c) p")
      case True
      then show ?thesis using cr by (simp add: find_subcommand_hit [OF Cons True])
    next
      case False
      show ?thesis
        using less.hyps [OF m cr] by (simp add: find_subcommand_miss [OF Cons False])
    qed
  qed
qed

lemma find_command_loop_total:
  assumes wf: "wf_state st"
  shows "set cmds \<subseteq> reachable st \<Longrightarrow>
     \<exists>r. find_command_loop st p cmds = Some r \<and>
         (\<forall>m. r = Some m \<longrightarrow> m \<in> reachable st \<and> meets (heap st m) p)"
proof (induction cmds)
  case Nil
  then show ?case by simp
next
  case (Cons c cmds)
  then have cr: "c \<in> reachable st" by simp
  from Cons have ih: "\<exists>r. find_command_loop st p cmds = Some r \<and>
         (\<forall>m. r = Some m \<longrightarrow> m \<in> reachable st \<and> meets (heap st m) p)" by simp
  show ?case
  proof (cases "meets (heap st c) p")
    case True
    then have "find_command_loop st p (c # cmds) = Some (Some c)"
      by (auto simp: meets_def)
    then show ?thesis using cr True by simp
  next
    case False
    from find_subcommand_total [OF wf cr, of p] obtain r where
      r: "find_subcommand st c p = Some r"
         "\<forall>m. r = Some m \<longrightarrow> m \<in> reachable st \<and> meets (heap st m) p" by blast
    show ?thesis
    proof (cases r)
      case None
      then have "find_command_loop st p (c # cmds) = find_command_loop st p cmds"
        using False r(1) by (simp add: meets_def)
      then show ?thesis using ih by simp
    next
      case (Some m)
      then have "find_command_loop st p (c # cmds) = Some (Some m)"
        using False r(1) by (simp add: meets_def)
      then show ?thesis using r(2) Some by simp
    qed
  qed
qed

lemma find_command_total:
  "wf_state st \<Longrightarrow>
     \<exists>r. find_command st p = Some r \<and>
         (\<forall>m. r = Some m \<longrightarrow> m \<in> reachable st \<and> meets (heap st m) p)"
  unfolding find_command_def
  by (rule find_command_loop_total) (auto intro: reachable.root)

lemma find_command_absent:
  assumes "wf_state st" "\<forall>n \<in> reachable st. \<not> meets (heap st n) p"
  shows "find_command st p = Some None"
proof -
  from find_command_total [OF assms(1), of p] obtain r where
    r: "find_command st p = Some r"
       "\<forall>m. r = Some m \<longrightarrow> m \<in> reachable st \<and> meets (heap st m) p" by blast
  from r(2) assms(2) have "r = None" by (cases r) auto
  with r(1) show ?thesis by simp
qed

section \<open>What registration and unregistration change\<close>

lemma built_simps [simp]:
  "command_like (built cl als nm lc cs ar) = cl"
  "subcommands (built cl als nm lc cs ar) = []"
  by (simp_all add: built_def Command_init_def)

lemma register_command_unfold:
  "register_command st cl parent als nm lc cs ar =
     (case parent of
        Some p \<Rightarrow>
          (case find_command (registered st cl (built cl als nm lc cs ar)) p of
             None \<Rightarrow> None
           | Some (Some command_parent) \<Rightarrow>
               Some (Inr (HandlerRef cl),
                     add_subcommand (registered st cl (built cl als nm lc cs ar))
                       command_parent (next_node st))
           | Some None \<Rightarrow>
               Some (Inl (ParentNotFound p), registered st cl (built cl als nm lc cs ar)))
      | None \<Rightarrow>
          Some (Inr (HandlerRef cl),
                (registered st cl (built cl als nm lc cs ar))
                  \<lparr>commands := set_add (next_node st) (commands st)\<rparr>))"
  by (simp add: register_command_def registered_def built_def Let_def split: option.split)

lemma registered_simps [simp]:
  "commands (registered st cl c) = commands st"
  "next_node (registered st cl c) = Suc (next_node st)"
  "command_table (registered st cl c) = (command_table st)(cl \<mapsto> next_node st)"
  "result (registered st cl c) = result st"
  "heap (registered st cl c) = (heap st)(next_node st := c)"
  by (simp_all add: registered_def)

lemma set_set_add [simp]: "set (set_add x xs) = insert x (set xs)"
  by (auto simp: set_add_def)

lemma extends_registered:
  "command_like c = cl \<Longrightarrow> subcommands c = [] \<Longrightarrow> extends st cl (registered st cl c)"
  by (auto simp: extends_def)

lemma extends_root:
  "command_like c = cl \<Longrightarrow> subcommands c = [] \<Longrightarrow>
     extends st cl ((registered st cl c)\<lparr>commands := set_add (next_node st) (commands st)\<rparr>)"
  by (auto simp: extends_def)

lemma add_subcommand_simps:
  "commands (add_subcommand st p k) = commands st"
  "next_node (add_subcommand st p k) = next_node st"
  "command_table (add_subcommand st p k) = command_table st"
  "result (add_subcommand st p k) = result st"
  "command_like (heap (add_subcommand st p k) n) = command_like (heap st n)"
  "p \<noteq> k \<Longrightarrow> subcommands (heap (add_subcommand st p k) n) =
     (if n = p then set_add k (subcommands (heap st p)) else subcommands (heap st n))"
  by (simp_all add: add_subcommand_def Let_def)

lemma extends_child:
  assumes "command_like c = cl" "subcommands c = []" "pn < next_node st"
  shows "extends st cl (add_subcommand (registered st cl c) pn (next_node st))"
  using assms by (auto simp: extends_def add_subcommand_simps)

lemma extendsD:
  assumes "extends st cl st'"
  shows "next_node st' = Suc (next_node st)"
    and "command_table st' = (command_table st)(cl \<mapsto> next_node st)"
    and "n < next_node st \<Longrightarrow> command_like (heap st' n) = command_like (heap st n)"
    and "command_like (heap st' (next_node st)) = cl"
    and "subcommands (heap st' (next_node st)) = []"
    and "set (commands st) \<subseteq> set (commands st')"
    and "set (commands st') \<subseteq> insert (next_node st) (set (commands st))"
    and "n < next_node st \<Longrightarrow> set (subcommands (heap st n)) \<subseteq> set (subcommands (heap st' n))"
    and "n < next_node st \<Longrightarrow>
           set (subcommands (heap st' n)) \<subseteq> insert (next_node st) (set (subcommands (heap st n)))"
  using assms unfolding extends_def by blast+

lemma extends_wf:
  assumes wf: "wf_state st" and ex: "extends st cl st'"
  shows "wf_state st'"
  unfolding wf_state_def
proof (intro conjI allI ballI impI)
  fix n assume "n \<in> set (commands st')"
  with extendsD(7) [OF ex] have "n = next_node st \<or> n \<in> set (commands st)" by blast
  then show "n < next_node st'"
    using wf_stateD(1) [OF wf, of n] extendsD(1) [OF ex] by auto
next
  fix n c assume n: "n < next_node st'" and c: "c \<in> set (subcommands (heap st' n))"
  show "n < c"
  proof (cases "n = next_node st")
    case True
    with c extendsD(5) [OF ex] show ?thesis by simp
  next
    case False
    with n extendsD(1) [OF ex] have nl: "n < next_node st" by simp
    from extendsD(9) [OF ex nl] c
    have "c = next_node st \<or> c \<in> set (subcommands (heap st n))" by blast
    then show ?thesis using nl wf_stateD(2) [OF wf nl, of c] by auto
  qed
  show "c < next_node st'"
  proof (cases "n = next_node st")
    case True
    with c extendsD(5) [OF ex] show ?thesis by simp
  next
    case False
    with n extendsD(1) [OF ex] have nl: "n < next_node st" by simp
    from extendsD(9) [OF ex nl] c
    have "c = next_node st \<or> c \<in> set (subcommands (heap st n))" by blast
    then show ?thesis using extendsD(1) [OF ex] wf_stateD(2) [OF wf nl, of c] by auto
  qed
next
  fix d n assume "command_table st' d = Some n"
  then have "n = next_node st \<or> command_table st d = Some n"
    using extendsD(2) [OF ex] by (auto split: if_splits)
  then show "n < next_node st'"
    using wf_stateD(3) [OF wf, of d n] extendsD(1) [OF ex] by auto
qed

lemma extends_reachable_mono:
  assumes wf: "wf_state st" and ex: "extends st cl st'"
  shows "n \<in> reachable st \<Longrightarrow> n \<in> reachable st'"
proof (induction rule: reachable.induct)
  case (root n)
  with extendsD(6) [OF ex] show ?case by (auto intro: reachable.root)
next
  case (child p c)
  have "p < next_node st" using wf child.hyps(1) by (rule reachable_below)
  from extendsD(8) [OF ex this] child.hyps(2)
  have "c \<in> set (subcommands (heap st' p))" by blast
  with child.IH show ?case by (rule reachable.child)
qed

lemma extends_reachable_new:
  assumes wf: "wf_state st" and ex: "extends st cl st'"
  shows "n \<in> reachable st' \<Longrightarrow> n = next_node st \<or> n \<in> reachable st"
proof (induction rule: reachable.induct)
  case (root n)
  with extendsD(7) [OF ex] show ?case by (auto intro: reachable.root)
next
  case (child p c)
  show ?case
  proof (cases "p = next_node st")
    case True
    with child.hyps(2) extendsD(5) [OF ex] show ?thesis by simp
  next
    case False
    with child.IH have pr: "p \<in> reachable st" by simp
    have "p < next_node st" using wf pr by (rule reachable_below)
    from extendsD(9) [OF ex this] child.hyps(2)
    have "c = next_node st \<or> c \<in> set (subcommands (heap st p))" by blast
    then show ?thesis using pr by (auto intro: reachable.child)
  qed
qed

lemma registered_reachable:
  assumes wf: "wf_state st"
  shows "n \<in> reachable (registered st cl c) \<Longrightarrow> n \<in> reachable st"
proof (induction rule: reachable.induct)
  case (root n)
  then show ?case by (auto intro: reachable.root)
next
  case (child p k)
  have "p < next_node st" using wf child.IH by (rule reachable_below)
  with child.hyps(2) have "k \<in> set (subcommands (heap st p))" by simp
  with child.IH show ?case by (rule reachable.child)
qed

lemma extends_index_invariant:
  assumes wf: "wf_state st" and inv: "index_invariant st" and ex: "extends st cl st'"
  shows "index_invariant st'"
  unfolding index_invariant_def
proof (intro conjI allI ballI impI)
  fix n assume "n \<in> reachable st'"
  from extends_reachable_new [OF wf ex this]
  show "command_like (heap st' n) \<in> dom (command_table st')"
  proof
    assume "n = next_node st"
    then show ?thesis using extendsD(4) [OF ex] extendsD(2) [OF ex] by simp
  next
    assume r: "n \<in> reachable st"
    have nl: "n < next_node st" using wf r by (rule reachable_below)
    from inv r have "command_like (heap st n) \<in> dom (command_table st)"
      unfolding index_invariant_def by blast
    then show ?thesis using extendsD(3) [OF ex nl] extendsD(2) [OF ex] by auto
  qed
next
  fix d n assume t: "command_table st' d = Some n"
  show "command_like (heap st' n) = d"
  proof (cases "d = cl")
    case True
    with t extendsD(2) [OF ex] have "n = next_node st" by simp
    then show ?thesis using True extendsD(4) [OF ex] by simp
  next
    case False
    with t extendsD(2) [OF ex] have o: "command_table st d = Some n" by simp
    then have nl: "n < next_node st" by (rule wf_stateD(3) [OF wf])
    from inv o have "command_like (heap st n) = d" unfolding index_invariant_def by blast
    then show ?thesis using extendsD(3) [OF ex nl] by simp
  qed
qed

lemma registered_wf:
  "wf_state st \<Longrightarrow> wf_state (registered st cl (built cl als nm lc cs ar))"
  by (rule extends_wf [OF _ extends_registered]) simp_all

lemma register_command_total:
  assumes wf: "wf_state st"
  shows "\<exists>res st'. register_command st cl parent als nm lc cs ar = Some (res, st') \<and>
           extends st cl st' \<and>
           (res = Inr (HandlerRef cl) \<or>
            (\<exists>p. parent = Some p \<and> res = Inl (ParentNotFound p) \<and>
                 st' = registered st cl (built cl als nm lc cs ar))) \<and>
           (parent = None \<longrightarrow> res = Inr (HandlerRef cl))"
proof (cases parent)
  case None
  then show ?thesis
    by (simp add: register_command_unfold extends_root)
next
  case (Some p)
  let ?st3 = "registered st cl (built cl als nm lc cs ar)"
  from find_command_total [OF registered_wf [OF wf], of cl als nm lc cs ar p]
  obtain r where r: "find_command ?st3 p = Some r"
    "\<forall>m. r = Some m \<longrightarrow> m \<in> reachable ?st3 \<and> meets (heap ?st3 m) p" by blast
  show ?thesis
  proof (cases r)
    case None
    then show ?thesis
      using Some r(1) by (simp add: register_command_unfold extends_registered)
  next
    case (Some pn)
    with r(2) have "pn \<in> reachable ?st3" by simp
    then have "pn \<in> reachable st" by (rule registered_reachable [OF wf])
    with wf have "pn < next_node st" by (rule reachable_below)
    then have "extends st cl (add_subcommand ?st3 pn (next_node st))"
      by (intro extends_child) simp_all
    then show ?thesis
      using \<open>parent = Some p\<close> Some r(1) by (simp add: register_command_unfold)
  qed
qed

lemma set_fold_remove1: "set (fold remove1 ms xs) \<subseteq> set xs"
proof (induction ms arbitrary: xs)
  case Nil
  then show ?case by simp
next
  case (Cons m ms)
  have "set (fold remove1 ms (remove1 m xs)) \<subseteq> set (remove1 m xs)" by (rule Cons.IH)
  also have "\<dots> \<subseteq> set xs" by (rule set_remove1_subset)
  finally show ?case by simp
qed

lemma unregister_shrinks: "shrinks st (snd (unregister st d))"
  using set_fold_remove1 [of "filter (\<lambda>cmd. command_like (heap st cmd) = d) (commands st)" "commands st"]
  by (auto simp: unregister_def shrinks_def Let_def get_parent_def
        split: option.splits dest: notin_set_remove1 intro: set_mp [OF set_remove1_subset])

lemma shrinksD:
  assumes "shrinks st st'"
  shows "next_node st' = next_node st"
    and "command_table st' = command_table st"
    and "set (commands st') \<subseteq> set (commands st)"
    and "command_like (heap st' n) = command_like (heap st n)"
    and "set (subcommands (heap st' n)) \<subseteq> set (subcommands (heap st n))"
  using assms unfolding shrinks_def by blast+

lemma shrinks_reachable:
  assumes sh: "shrinks st st'"
  shows "n \<in> reachable st' \<Longrightarrow> n \<in> reachable st"
proof (induction rule: reachable.induct)
  case (root n)
  with shrinksD(3) [OF sh] show ?case by (auto intro: reachable.root)
next
  case (child p c)
  with shrinksD(5) [OF sh, of p] have "c \<in> set (subcommands (heap st p))" by blast
  with child.IH show ?case by (rule reachable.child)
qed

lemma shrinks_wf:
  assumes wf: "wf_state st" and sh: "shrinks st st'"
  shows "wf_state st'"
  unfolding wf_state_def
proof (intro conjI allI ballI impI)
  fix n assume "n \<in> set (commands st')"
  with shrinksD(3) [OF sh] have "n \<in> set (commands st)" by blast
  then show "n < next_node st'" using wf_stateD(1) [OF wf] shrinksD(1) [OF sh] by simp
next
  fix n c assume n: "n < next_node st'" and c: "c \<in> set (subcommands (heap st' n))"
  from n have nl: "n < next_node st" using shrinksD(1) [OF sh] by simp
  from c shrinksD(5) [OF sh, of n] have "c \<in> set (subcommands (heap st n))" by blast
  from wf_stateD(2) [OF wf nl this] show "n < c" "c < next_node st'"
    using shrinksD(1) [OF sh] by simp_all
next
  fix d n assume "command_table st' d = Some n"
  then have "command_table st d = Some n" using shrinksD(2) [OF sh] by simp
  then show "n < next_node st'" using wf_stateD(3) [OF wf] shrinksD(1) [OF sh] by simp
qed

lemma shrinks_index_invariant:
  assumes inv: "index_invariant st" and sh: "shrinks st st'"
  shows "index_invariant st'"
  unfolding index_invariant_def
proof (intro conjI allI ballI impI)
  fix n assume "n \<in> reachable st'"
  then have "n \<in> reachable st" by (rule shrinks_reachable [OF sh])
  with inv have "command_like (heap st n) \<in> dom (command_table st)"
    unfolding index_invariant_def by blast
  then show "command_like (heap st' n) \<in> dom (command_table st')"
    using shrinksD(2,4) [OF sh] by simp
next
  fix d n assume "command_table st' d = Some n"
  then have "command_table st d = Some n" using shrinksD(2) [OF sh] by simp
  with inv have "command_like (heap st n) = d" unfolding index_invariant_def by blast
  then show "command_like (heap st' n) = d" using shrinksD(4) [OF sh] by simp
qed

lemma reachable_no_roots: "commands st = [] \<Longrightarrow> reachable st = {}"
proof -
  assume e: "commands st = []"
  have "n \<in> reachable st \<Longrightarrow> False" for n
    by (induction rule: reachable.induct) (simp_all add: e)
  then show ?thesis by blast
qed

lemma wf_st_a: "wf_state st_a"
  by (simp add: wf_state_def st_a_eq Command_init_def)

lemma reachable_st_a: "reachable st_a = {0}"
proof
  show "reachable st_a \<subseteq> {0}"
    using reachable_below [OF wf_st_a] by (auto simp: st_a_eq)
  show "{0} \<subseteq> reachable st_a"
    by (auto intro: reachable.root simp: st_a_eq)
qed

lemma index_invariant_st_a: "index_invariant st_a"
  unfolding index_invariant_def reachable_st_a
  by (simp add: st_a_eq Command_init_def)

lemma st_aa_eq: "st_aa = \<lparr> commands = [0, 1], command_table = [fn 1 ''a'' \<mapsto> 1], result = None,
       heap = (\<lambda>_. undefined)
         (0 := Command_init ''a'' (fn 1 ''a'') [] True True None,
          1 := Command_init ''a'' (fn 1 ''a'') [] True True None),
       next_node = 2, boundcommand = [fn 1 ''a'' \<mapsto> 1],
       instances = (\<lambda>_. undefined), next_instance = 0 \<rparr>"
  by (simp add: st_aa_def st_a_eq reg_simps)

lemma unregister_st_a:
  "snd (unregister st_a (fn 1 ''a'')) = st_a\<lparr>commands := []\<rparr>"
  by (simp add: unregister_def st_a_eq Command_init_def get_parent_def)

section \<open>The index\<close>

text \<open>
  C5, as the specification states it, fails.  After \<open>a\<close> is registered the
  invariant of the specification holds; registering \<open>a\<close> again leaves the first
  command among the roots while the index holds only the second, and
  unregistering \<open>a\<close> removes the command from the roots while the index still
  holds it.
\<close>

theorem index_invariant_counterexample:
  "spec_index_invariant st_a
   \<and> st_aa = snd (the (register_command st_a (fn 1 ''a'') None None None True True None))
   \<and> \<not> spec_index_invariant st_aa
   \<and> \<not> spec_index_invariant (snd (unregister st_a (fn 1 ''a'')))"
proof (intro conjI)
  show "spec_index_invariant st_a"
    unfolding spec_index_invariant_def reachable_st_a
    by (auto simp: st_a_eq split: if_splits)
  show "st_aa = snd (the (register_command st_a (fn 1 ''a'') None None None True True None))"
    by (simp add: st_aa_def reg_def)
  have "0 \<in> reachable st_aa" by (rule reachable.root) (simp add: st_aa_eq)
  moreover have "\<not> (\<exists>d. command_table st_aa d = Some 0)" by (simp add: st_aa_eq)
  ultimately show "\<not> spec_index_invariant st_aa"
    unfolding spec_index_invariant_def by blast
  have "reachable (st_a\<lparr>commands := []\<rparr>) = {}" by (rule reachable_no_roots) simp
  moreover have "command_table (st_a\<lparr>commands := []\<rparr>) (fn 1 ''a'') = Some 0"
    by (simp add: st_a_eq)
  ultimately show "\<not> spec_index_invariant (snd (unregister st_a (fn 1 ''a'')))"
    unfolding spec_index_invariant_def unregister_st_a by blast
qed

text \<open>
  C5, amended: \<open>register\<close> (whether it succeeds or fails for an unknown parent) and
  \<open>unregister\<close> keep the state well formed and keep this invariant: the
  command-like object of every command reachable from the roots is a key of the
  index, and the index maps every key to a command built for that key.
  Registration returns on every well-formed state.
\<close>

theorem registry_operations_keep_index:
  assumes "wf_state st" and "index_invariant st"
  shows "(\<exists>res st'. register_command st cl parent als nm lc cs ar = Some (res, st') \<and>
             wf_state st' \<and> index_invariant st')
         \<and> wf_state (snd (unregister st d)) \<and> index_invariant (snd (unregister st d))"
proof (intro conjI)
  from register_command_total [OF assms(1), of cl parent als nm lc cs ar]
  obtain res st' where r: "register_command st cl parent als nm lc cs ar = Some (res, st')"
    and ex: "extends st cl st'" by blast
  from extends_wf [OF assms(1) ex] extends_index_invariant [OF assms ex] r
  show "\<exists>res st'. register_command st cl parent als nm lc cs ar = Some (res, st') \<and>
             wf_state st' \<and> index_invariant st'" by blast
  show "wf_state (snd (unregister st d))"
    by (rule shrinks_wf [OF assms(1) unregister_shrinks])
  show "index_invariant (snd (unregister st d))"
    by (rule shrinks_index_invariant [OF assms(2) unregister_shrinks])
qed

theorem registry_operations_keep_index_witness:
  "wf_state st_a \<and> index_invariant st_a
   \<and> (\<exists>res st'. register_command st_a (fn 1 ''a'') None None None True True None = Some (res, st')
         \<and> wf_state st' \<and> index_invariant st')
   \<and> wf_state (snd (unregister st_a (fn 1 ''a'')))
   \<and> index_invariant (snd (unregister st_a (fn 1 ''a'')))"
  using registry_operations_keep_index [OF wf_st_a index_invariant_st_a,
      of "fn 1 ''a''" None None None True True None "fn 1 ''a''"]
    wf_st_a index_invariant_st_a
  by blast

section \<open>Registration under an unknown parent\<close>

text \<open>
  C4, as the specification states it, fails: the new command enters the index
  before the parent is looked up, so the failed call leaves the index changed.
\<close>

theorem register_unknown_parent_counterexample:
  "register_command st_a (fn 3 ''c'') (Some (Handler (fn 2 ''b''))) None None True True None
     = Some (Inl (ParentNotFound (Handler (fn 2 ''b''))), st_orphan)
   \<and> command_table st_a (fn 3 ''c'') = None
   \<and> command_table st_orphan (fn 3 ''c'') = Some 1"
  by (simp add: st_orphan_def st_a_eq reg_simps Command_init_def find_subcommand.simps)

text \<open>
  C4, amended: when no command reachable from the roots was built for the parent
  handler, registration fails with the parent-not-found error; the roots, every
  command that existed and the set of reachable commands are unchanged, and the
  index differs only at the handler being registered, which now maps to the
  newly created command.
\<close>

theorem register_unknown_parent:
  assumes "wf_state st" and "\<forall>n \<in> reachable st. command_like (heap st n) \<noteq> h"
  shows "\<exists>st'. register_command st cl (Some (Handler h)) als nm lc cs ar
                 = Some (Inl (ParentNotFound (Handler h)), st') \<and>
           commands st' = commands st \<and>
           (\<forall>n < next_node st. heap st' n = heap st n) \<and>
           reachable st' = reachable st \<and>
           command_like (heap st' (next_node st)) = cl \<and>
           command_table st' = (command_table st)(cl \<mapsto> next_node st)"
proof -
  let ?st3 = "registered st cl (built cl als nm lc cs ar)"
  have sub: "reachable ?st3 \<subseteq> reachable st"
    using registered_reachable [OF assms(1)] by blast
  have sup: "reachable st \<subseteq> reachable ?st3"
    using extends_reachable_mono [OF assms(1) extends_registered, of "built cl als nm lc cs ar" cl]
    by auto
  have "\<forall>n \<in> reachable ?st3. \<not> meets (heap ?st3 n) (Handler h)"
  proof
    fix n assume "n \<in> reachable ?st3"
    with sub have r: "n \<in> reachable st" by blast
    with assms(1) have "n < next_node st" by (rule reachable_below)
    with r assms(2) show "\<not> meets (heap ?st3 n) (Handler h)"
      by (auto simp: meets_def str_matches_def is_same_def)
  qed
  from find_command_absent [OF registered_wf [OF assms(1)] this]
  have "register_command st cl (Some (Handler h)) als nm lc cs ar
          = Some (Inl (ParentNotFound (Handler h)), ?st3)"
    by (simp add: register_command_unfold)
  then show ?thesis using sub sup by auto
qed

theorem register_unknown_parent_witness:
  "wf_state st_a \<and> reachable st_a = {0} \<and> command_like (heap st_a 0) \<noteq> fn 2 ''b''
   \<and> (\<exists>st'. register_command st_a (fn 3 ''c'') (Some (Handler (fn 2 ''b''))) None None True True None
               = Some (Inl (ParentNotFound (Handler (fn 2 ''b''))), st')
         \<and> commands st' = commands st_a \<and> reachable st' = {0}
         \<and> command_table st' = (command_table st_a)(fn 3 ''c'' \<mapsto> 1))"
proof -
  have h: "\<forall>n \<in> reachable st_a. command_like (heap st_a n) \<noteq> fn 2 ''b''"
    unfolding reachable_st_a by (simp add: st_a_eq Command_init_def)
  have n: "next_node st_a = 1" by (simp add: st_a_eq)
  from register_unknown_parent [OF wf_st_a h, of "fn 3 ''c''" None None True True None]
  show ?thesis using wf_st_a reachable_st_a h unfolding n reachable_st_a by auto
qed

section \<open>Registering a handler again\<close>

text \<open>
  C9, as the specification states it, fails: registration returns the
  command-like object it was given (the decorated function or class), not the
  command it created.
\<close>

theorem reregister_counterexample:
  "fst (the (register_command (CLI_init :: (nat, demo_result) CLI) (fn 1 ''a'')
              None None None True True None))
     = Inr (HandlerRef (fn 1 ''a''))
   \<and> command_table st_a (fn 1 ''a'') = Some 0
   \<and> HandlerRef (fn 1 ''a'') \<noteq> CommandRef 0"
  by (simp add: st_a_eq register_command_def Let_def)

text \<open>
  C9, amended: registration of a handler that is already in the index returns;
  when it succeeds (always, without a parent) it returns the handler it was
  given; it overwrites the handler's entry in the index with the new command,
  which differs from the old one; and every root stays a root, every subcommand
  stays a subcommand of its parent, and every reachable command stays reachable.
\<close>

theorem reregister_keeps_stale_node:
  assumes "wf_state st" and "command_table st cl = Some old"
  shows "\<exists>res st'. register_command st cl parent als nm lc cs ar = Some (res, st') \<and>
           (res = Inr (HandlerRef cl) \<or> (\<exists>p. parent = Some p \<and> res = Inl (ParentNotFound p))) \<and>
           (parent = None \<longrightarrow> res = Inr (HandlerRef cl)) \<and>
           command_table st' cl = Some (next_node st) \<and> next_node st \<noteq> old \<and>
           command_like (heap st' (next_node st)) = cl \<and>
           set (commands st) \<subseteq> set (commands st') \<and>
           (\<forall>n < next_node st. set (subcommands (heap st n)) \<subseteq> set (subcommands (heap st' n))) \<and>
           reachable st \<subseteq> reachable st'"
proof -
  from register_command_total [OF assms(1), of cl parent als nm lc cs ar]
  obtain res st' where r: "register_command st cl parent als nm lc cs ar = Some (res, st')"
    and ex: "extends st cl st'"
    and res: "res = Inr (HandlerRef cl) \<or> (\<exists>p. parent = Some p \<and> res = Inl (ParentNotFound p))"
      "parent = None \<longrightarrow> res = Inr (HandlerRef cl)" by blast
  have "old < next_node st" using assms(2) by (rule wf_stateD(3) [OF assms(1)])
  then have ne: "next_node st \<noteq> old" by simp
  have sub: "reachable st \<subseteq> reachable st'"
    using extends_reachable_mono [OF assms(1) ex] by blast
  show ?thesis
    using r res ne sub extendsD(2,4,6) [OF ex] extendsD(8) [OF ex] by auto
qed

theorem reregister_keeps_stale_node_witness:
  "wf_state st_a \<and> command_table st_a (fn 1 ''a'') = Some 0 \<and> commands st_a = [0]
   \<and> (\<exists>st'. register_command st_a (fn 1 ''a'') None None None True True None
               = Some (Inr (HandlerRef (fn 1 ''a'')), st')
         \<and> command_table st' (fn 1 ''a'') = Some 1 \<and> 0 \<in> set (commands st')
         \<and> 0 \<in> reachable st')"
proof -
  have t: "command_table st_a (fn 1 ''a'') = Some 0" by (simp add: st_a_eq)
  have c: "commands st_a = [0]" by (simp add: st_a_eq)
  have n: "next_node st_a = 1" by (simp add: st_a_eq)
  from reregister_keeps_stale_node [OF wf_st_a t, of None None None True True None]
  show ?thesis using wf_st_a t c reachable_st_a unfolding n by auto
qed

section \<open>The singleton instance of a class-shaped handler\<close>

lemma get_instance_first:
  "command_like_instance (heap st n) = None \<Longrightarrow>
     get_instance w st n =
       (next_instance st,
        st\<lparr>instances := (instances st)(next_instance st := construct w (command_like (heap st n))),
           next_instance := Suc (next_instance st),
           heap := (heap st)(n := (heap st n)\<lparr>command_like_instance := Some (next_instance st)\<rparr>)\<rparr>)"
  by (simp add: get_instance_def Let_def)

lemma get_instance_again:
  "command_like_instance (heap st n) = Some a \<Longrightarrow> get_instance w st n = (a, st)"
  by (simp add: get_instance_def)

lemma get_instance_keeps:
  "command_like_instance (heap st n) = Some a \<Longrightarrow>
     command_like_instance (heap (snd (get_instance w st m)) n) = Some a"
  by (cases "command_like_instance (heap st m)") (auto simp: get_instance_def Let_def)

lemma call_with_heap: "heap (snd (call_with f g cl arguments st)) = heap st"
  by (cases arguments) (auto simp: call_with_def split_beta Let_def split: option.splits)

lemma match_arguments_keeps:
  "command_like_instance (heap st n) = Some a \<Longrightarrow>
     command_like_instance (heap (snd (match_arguments w st m raw)) n) = Some a"
  using get_instance_keeps [of st n a w m]
  by (auto simp: match_arguments_def split_beta Let_def split: sum.splits)

lemma execute_here_keeps:
  assumes "command_like_instance (heap st n) = Some a"
  shows "command_like_instance (heap (snd (execute_here w st m raw)) n) = Some a"
proof (cases "match_arguments w st m raw")
  case (Pair res st1)
  with match_arguments_keeps [OF assms, of w m raw]
  have k: "command_like_instance (heap st1 n) = Some a" by simp
  show ?thesis
  proof (cases res)
    case (Inl e)
    with Pair k show ?thesis by (simp add: execute_here_def)
  next
    case (Inr arguments)
    with Pair k show ?thesis by (simp add: execute_here_def call_with_heap)
  qed
qed

lemma execute_ends: "\<exists>m raw'. execute w st n raw = execute_here w st m raw'"
proof (induction w st n raw rule: execute.induct)
  case (1 w st self raw_input)
  show ?case
  proof (cases "search_space raw_input")
    case None
    then have "execute w st self raw_input = execute_here w st self raw_input"
      by (subst execute.simps) simp
    then show ?thesis by blast
  next
    case (Some sp)
    obtain nm rest where sp: "sp = (nm, rest)" by (cases sp)
    show ?thesis
    proof (cases "find (\<lambda>s. matches (heap st s) nm) (subcommands (heap st self))")
      case None
      then have "execute w st self raw_input = execute_here w st self raw_input"
        using Some sp by (subst execute.simps) simp
      then show ?thesis by blast
    next
      case (Some sub)
      then have "execute w st self raw_input = execute w st sub rest"
        using \<open>search_space raw_input = Some sp\<close> sp by (subst execute.simps) simp
      moreover have "\<exists>m raw'. execute w st sub rest = execute_here w st m raw'"
        using "1.IH" [OF \<open>search_space raw_input = Some sp\<close> sp [symmetric] Some] .
      ultimately show ?thesis by simp
    qed
  qed
qed

lemma execute_keeps:
  assumes "command_like_instance (heap st n) = Some a"
  shows "command_like_instance (heap (snd (execute w st m raw)) n) = Some a"
proof -
  from execute_ends [of w st m raw] obtain m' raw'
    where "execute w st m raw = execute_here w st m' raw'" by blast
  with execute_here_keeps [OF assms, of w m' raw'] show ?thesis by simp
qed

text \<open>
  C7, as the specification states it, fails on the binder modelled from the
  specification: a class-shaped handler none of whose parameters receives the
  instance (\<open>__execute__\<close> may be static) is executed without an instance being
  constructed or cached on the command.
\<close>

theorem singleton_needs_self_counterexample:
  "is_class (heap st_math 0) \<and> command_like_instance (heap st_math 0) = None
   \<and> execute static_world st_math 0 ''5'' = (Inr (''Math'', 0, [''5'']), st_math)"
proof -
  have "stops st_math (subcommands (heap st_math 0)) ''5''"
    by (simp add: stops_def search_space_def is_space_def)
  then have "execute static_world st_math 0 ''5'' = execute_here static_world st_math 0 ''5''"
    by (rule execute_stops)
  then show ?thesis
    by (simp add: execute_here_def match_arguments_def call_with_def static_world_def
          echo_world_def st_math_eq Command_init_def)
qed

lemma echo_world_simps:
  "bind_text echo_world c raw = Inr [raw]"
  "injects_self echo_world c = is_class c"
  "construct echo_world cl = 0"
  "call_execute_self echo_world cl i vs = ((dunder_name cl, i, vs), Suc i)"
  by (simp_all add: echo_world_def)

text \<open>
  C7, amended: take a command whose handler is class-shaped and has a parameter
  that receives the handler's own instance, and an execution that ends at the
  command and whose arguments bind.  When the command has no instance yet,
  \<open>execute\<close> constructs one with the zero-argument constructor, caches its address
  on the command and calls \<open>__execute__\<close> with it.  When the command has an
  instance, \<open>execute\<close> constructs nothing and calls \<open>__execute__\<close> with that
  instance, in the state the earlier calls left.  And an address cached on a
  command stays there through every execution of every command.  The step
  from \<open>execute\<close> to \<open>get_instance\<close> lies in \<open>match_arguments\<close>, which is modelled
  from the specification.
\<close>

theorem singleton_instance_reused:
  assumes cls: "is_class (heap st n)"
    and self: "injects_self w (heap st n)"
    and stop: "stops st (subcommands (heap st n)) raw_input"
    and bind: "bind_text w (heap st n) raw_input = Inr vs"
  shows
    "(command_like_instance (heap st n) = None \<longrightarrow>
        execute w st n raw_input
          = (Inr (fst (call_execute_self w (command_like (heap st n))
                         (construct w (command_like (heap st n))) vs)),
             st\<lparr>instances := (instances st)
                   (next_instance st :=
                      snd (call_execute_self w (command_like (heap st n))
                             (construct w (command_like (heap st n))) vs)),
                next_instance := Suc (next_instance st),
                heap := (heap st)
                   (n := (heap st n)\<lparr>command_like_instance := Some (next_instance st)\<rparr>)\<rparr>))
     \<and> (\<forall>a. command_like_instance (heap st n) = Some a \<longrightarrow>
        execute w st n raw_input
          = (Inr (fst (call_execute_self w (command_like (heap st n)) (instances st a) vs)),
             st\<lparr>instances := (instances st)
                   (a := snd (call_execute_self w (command_like (heap st n))
                                (instances st a) vs))\<rparr>))
     \<and> (\<forall>a m raw. command_like_instance (heap st n) = Some a \<longrightarrow>
        command_like_instance (heap (snd (execute w st m raw)) n) = Some a)"
proof (intro conjI allI impI)
  have e: "execute w st n raw_input = execute_here w st n raw_input"
    using stop by (rule execute_stops)
  {
    assume fresh: "command_like_instance (heap st n) = None"
    show "execute w st n raw_input
          = (Inr (fst (call_execute_self w (command_like (heap st n))
                         (construct w (command_like (heap st n))) vs)),
             st\<lparr>instances := (instances st)
                   (next_instance st :=
                      snd (call_execute_self w (command_like (heap st n))
                             (construct w (command_like (heap st n))) vs)),
                next_instance := Suc (next_instance st),
                heap := (heap st)
                   (n := (heap st n)\<lparr>command_like_instance := Some (next_instance st)\<rparr>)\<rparr>)"
      unfolding e using cls self bind
      by (simp add: execute_here_def match_arguments_def get_instance_first [OF fresh]
            call_with_def split_beta Let_def)
  }
  {
    fix a assume cached: "command_like_instance (heap st n) = Some a"
    show "execute w st n raw_input
          = (Inr (fst (call_execute_self w (command_like (heap st n)) (instances st a) vs)),
             st\<lparr>instances := (instances st)
                   (a := snd (call_execute_self w (command_like (heap st n))
                                (instances st a) vs))\<rparr>)"
      unfolding e using cls self bind
      by (simp add: execute_here_def match_arguments_def get_instance_again [OF cached]
            call_with_def split_beta Let_def)
  }
  {
    fix a m raw assume "command_like_instance (heap st n) = Some a"
    then show "command_like_instance (heap (snd (execute w st m raw)) n) = Some a"
      by (rule execute_keeps)
  }
qed

theorem singleton_instance_reused_witness:
  "is_class (heap st_math 0) \<and> injects_self echo_world (heap st_math 0)
   \<and> stops st_math (subcommands (heap st_math 0)) ''5''
   \<and> bind_text echo_world (heap st_math 0) ''5'' = Inr [''5'']
   \<and> command_like_instance (heap st_math 0) = None
   \<and> execute echo_world st_math 0 ''5'' = (Inr (''Math'', 0, [''5'']), st_math_once)
   \<and> command_like_instance (heap st_math_once 0) = Some 0
   \<and> next_instance st_math_once = 1
   \<and> instances st_math_once 0 = 1
   \<and> execute echo_world st_math_once 0 ''7''
       = (Inr (''Math'', 1, [''7'']), st_math_once\<lparr>instances := (instances st_math_once)(0 := 2)\<rparr>)
   \<and> command_like_instance (heap (snd (execute echo_world st_math_once 0 ''9'')) 0) = Some 0"
proof -
  have c: "is_class (heap st_math 0)" by (simp add: st_math_eq Command_init_def)
  then have i: "injects_self echo_world (heap st_math 0)" by (simp add: echo_world_simps)
  have s: "stops st_math (subcommands (heap st_math 0)) ''5''"
    by (simp add: stops_def search_space_def is_space_def)
  have b: "bind_text echo_world (heap st_math 0) ''5'' = Inr [''5'']"
    by (simp add: echo_world_simps)
  have f: "command_like_instance (heap st_math 0) = None"
    by (simp add: st_math_eq Command_init_def)
  have cl: "command_like (heap st_math 0) = cls 1 ''Math''" "next_instance st_math = 0"
    by (simp_all add: st_math_eq Command_init_def)
  from singleton_instance_reused [OF c i s b] f
  have e1: "execute echo_world st_math 0 ''5''
      = (Inr (''Math'', 0, [''5'']),
         st_math\<lparr>instances := (instances st_math)(0 := 1), next_instance := 1,
            heap := (heap st_math)(0 := (heap st_math 0)\<lparr>command_like_instance := Some 0\<rparr>)\<rparr>)"
    by (simp add: cl echo_world_simps)
  then have once: "st_math_once
      = st_math\<lparr>instances := (instances st_math)(0 := 1), next_instance := 1,
            heap := (heap st_math)(0 := (heap st_math 0)\<lparr>command_like_instance := Some 0\<rparr>)\<rparr>"
    by (simp add: st_math_once_def)
  have c': "is_class (heap st_math_once 0)" using c by (simp add: once)
  then have i': "injects_self echo_world (heap st_math_once 0)" by (simp add: echo_world_simps)
  have s': "stops st_math_once (subcommands (heap st_math_once 0)) ''7''"
    by (simp add: stops_def search_space_def is_space_def)
  have b': "bind_text echo_world (heap st_math_once 0) ''7'' = Inr [''7'']"
    by (simp add: echo_world_simps)
  have k: "command_like_instance (heap st_math_once 0) = Some 0" by (simp add: once)
  have cl': "command_like (heap st_math_once 0) = cls 1 ''Math''" "instances st_math_once 0 = 1"
    "next_instance st_math_once = 1"
    by (simp_all add: once cl)
  from singleton_instance_reused [OF c' i' s' b'] k
  have e2: "execute echo_world st_math_once 0 ''7''
      = (Inr (''Math'', 1, [''7'']), st_math_once\<lparr>instances := (instances st_math_once)(0 := 2)\<rparr>)"
    and e3: "command_like_instance (heap (snd (execute echo_world st_math_once 0 ''9'')) 0) = Some 0"
    by (simp_all add: cl' echo_world_simps numeral_2_eq_2)
  from c i s b f e1 k cl'(2,3) e2 e3 show ?thesis
    unfolding once [symmetric] by simp
qed

end
